theory Spec2Isabelle
  imports Main "HOL-Library.Word"
begin

section \<open>Values, errors and panics\<close>

text \<open>
  An argument of a condition is a Go \<^verbatim>\<open>interface{}\<close>. The condition engine looks at
  three things only: whether the interface is nil, whether its dynamic kind is
  \<^verbatim>\<open>reflect.Slice\<close>, and, for a slice, its elements (again interfaces).
  A nil slice and an empty slice both have length 0 and are \<open>VSlice []\<close>.
\<close>

datatype goval =
    VNil
  | VInt int
  | VString string
  | VBool bool
  | VSlice "goval list"

text \<open>
  Errors are values. \<open>Errorf m\<close> is the error built by \<^verbatim>\<open>fmt.Errorf\<close> with the
  formatted message \<open>m\<close>; \<open>ErrNoRows\<close> is the sentinel \<^verbatim>\<open>sql.ErrNoRows\<close>;
  \<open>ErrOpLock\<close> is the package's own sentinel; \<open>ErrDriver\<close> stands for any error
  coming back from the driver or from the record mapping.
\<close>

datatype error =
    Errorf string
  | ErrNoRows
  | ErrOpLock
  | ErrDriver string

text \<open>Run-time panics of the Go code are values on the left of a sum.\<close>

datatype panic =
    SliceBoundsOutOfRange
  | MakesliceCapOutOfRange
  | NegativeRepeatCount
  | NilPointerDereference

section \<open>The string functions of the Go library used by the condition engine\<close>

text \<open>The constant \<^verbatim>\<open>Placeholder\<close> of godb.go.\<close>

definition Placeholder :: string where
  "Placeholder = ''?''"

text \<open>\<^verbatim>\<open>strings.HasPrefix\<close>.\<close>

definition HasPrefix :: "string \<Rightarrow> string \<Rightarrow> bool" where
  "HasPrefix s p = (length p \<le> length s \<and> take (length p) s = p)"

text \<open>
  \<^verbatim>\<open>strings.Index(s, substr)\<close>: the index of the first occurrence of \<open>substr\<close> in
  \<open>s\<close>, or \<open>-1\<close> when there is none.
\<close>

fun Index :: "string \<Rightarrow> string \<Rightarrow> int" where
  "Index [] substr = (if substr = [] then 0 else - 1)"
| "Index (c # s) substr =
     (if HasPrefix (c # s) substr then 0
      else (let i = Index s substr in if i < 0 then - 1 else i + 1))"

text \<open>
  \<^verbatim>\<open>strings.Count(s, substr)\<close>: the number of non-overlapping occurrences of
  \<open>substr\<close> in \<open>s\<close>, found by the library's loop
  \<^verbatim>\<open>i := Index(s, substr); if i == -1 { return n }; n++; s = s[i+len(substr):]\<close>.
  For an empty \<open>substr\<close> the library returns one more than the number of code
  points of \<open>s\<close>; the model counts bytes in that case, which is the same on ASCII
  text. The condition engine only ever passes \<open>Placeholder\<close>, which is not empty.
\<close>

function Count :: "string \<Rightarrow> string \<Rightarrow> nat" where
  "Count s substr =
     (if substr = [] then Suc (length s)
      else (let i = Index s substr in
            if i < 0 then 0
            else Suc (Count (drop (nat i + length substr) s) substr)))"
  by pat_completeness auto
termination
proof (relation "measure (\<lambda>(s, substr). length s)")
  show "wf (measure (\<lambda>(s, substr). length s))"
    by simp
next
  fix s substr :: string and i :: int
  assume ne: "substr \<noteq> []" and i: "i = Index s substr" and found: "\<not> i < 0"
  from ne i found have "s \<noteq> []"
    by (cases s) auto
  moreover from ne have "0 < length substr"
    by simp
  ultimately show "((drop (nat i + length substr) s, substr), (s, substr))
      \<in> measure (\<lambda>(s, substr). length s)"
    by simp
qed

declare Count.simps [simp del]

text \<open>
  \<^verbatim>\<open>strings.Repeat(s, count)\<close>: \<open>count\<close> copies of \<open>s\<close>; it panics on a negative
  count.
\<close>

definition Repeat :: "string \<Rightarrow> int \<Rightarrow> panic + string" where
  "Repeat s count =
     (if count < 0 then Inl NegativeRepeatCount
      else Inr (concat (replicate (nat count) s)))"

text \<open>
  \<^verbatim>\<open>make([]byte, 0, n)\<close> followed by \<^verbatim>\<open>bytes.NewBuffer\<close>: an empty buffer of
  capacity \<open>n\<close>. The capacity is not observable afterwards, but a negative one
  panics.
\<close>

definition NewBuffer :: "int \<Rightarrow> panic + string" where
  "NewBuffer capacity = (if capacity < 0 then Inl MakesliceCapOutOfRange else Inr [])"

section \<open>Conditions\<close>

text \<open>
  The struct \<^verbatim>\<open>Condition\<close>. A \<^verbatim>\<open>*Condition\<close> handed to the combinators is
  modelled by the value it points to. A condition is poisoned when its \<open>err\<close> is
  not \<open>None\<close>.
\<close>

record Condition =
  err :: "error option"
  sql :: string
  args :: "goval list"

definition Err :: "Condition \<Rightarrow> error option" where
  "Err c = err c"

text \<open>
  The loop of \<^verbatim>\<open>Q\<close> over the arguments. Its state is the buffer written so far,
  the rest of the fragment still to scan and the arguments collected in \<open>c.args\<close>.
  On an error the function returns at once: the buffer has not been copied to
  \<open>c.sql\<close> yet, and \<open>c.args\<close> holds what was collected before.
\<close>

fun Q_loop :: "string \<Rightarrow> string \<Rightarrow> string \<Rightarrow> goval list \<Rightarrow> goval list \<Rightarrow> panic + Condition" where
  "Q_loop sql0 buffer remainingSQL cargs [] =
     Inr \<lparr>err = None, sql = buffer @ remainingSQL, args = cargs\<rparr>"
| "Q_loop sql0 buffer remainingSQL cargs (arg # rest) =
     (if arg = VNil then
        Inr \<lparr>err = Some (Errorf (''using nil as argument in condition '' @ sql0)),
             sql = [], args = cargs\<rparr>
      else
        (let placeholderPos = Index remainingSQL Placeholder in
         if placeholderPos < 0 \<or> int (length remainingSQL) < placeholderPos then
           Inl SliceBoundsOutOfRange
         else
           (let buffer1 = buffer @ take (nat placeholderPos) remainingSQL;
                remainingSQL1 = drop (nat (placeholderPos + 1)) remainingSQL
            in if int (length remainingSQL) < placeholderPos + 1 then
                 Inl SliceBoundsOutOfRange
               else
                 (case arg of
                    VSlice v \<Rightarrow>
                      (if length v = 0 then
                         Inr \<lparr>err = Some (Errorf (''empty slice used as argument in condition '' @ sql0)),
                              sql = [], args = cargs\<rparr>
                       else
                         (case Repeat ('','' @ Placeholder) (int (length v) - 1) of
                            Inl p \<Rightarrow> Inl p
                          | Inr commas \<Rightarrow>
                              Q_loop sql0 (buffer1 @ Placeholder @ commas) remainingSQL1
                                (cargs @ v) rest))
                  | _ \<Rightarrow>
                      Q_loop sql0 (buffer1 @ Placeholder) remainingSQL1 (cargs @ [arg]) rest))))"

declare Q_loop.simps(2) [simp del]

definition Q :: "string \<Rightarrow> goval list \<Rightarrow> panic + Condition" where
  "Q sql0 arguments =
     (if int (Count sql0 Placeholder) \<noteq> int (length arguments) then
        Inr \<lparr>err = Some (Errorf (''wrong number of arguments in condition '' @ sql0)),
             sql = [], args = []\<rparr>
      else
        (case NewBuffer (int (length sql0)) of
           Inl p \<Rightarrow> Inl p
         | Inr buffer \<Rightarrow> Q_loop sql0 buffer sql0 [] arguments))"

text \<open>
  \<^verbatim>\<open>sumOfConditionsLengths\<close>: the loop keeps the two running sums and returns at
  the first condition whose \<open>err\<close> is set. The lengths are Go \<^verbatim>\<open>int\<close>s; they
  are sums of lengths of strings and slices that are held in memory, and are
  modelled as unbounded integers.
\<close>

fun sumOfConditionsLengths_loop :: "int \<Rightarrow> int \<Rightarrow> Condition list \<Rightarrow> int \<times> int \<times> error option" where
  "sumOfConditionsLengths_loop sqlLength argsLength [] = (sqlLength, argsLength, None)"
| "sumOfConditionsLengths_loop sqlLength argsLength (c # conditions) =
     (if err c \<noteq> None then (0, 0, err c)
      else sumOfConditionsLengths_loop
             (sqlLength + int (length (sql c))) (argsLength + int (length (args c))) conditions)"

definition sumOfConditionsLengths :: "Condition list \<Rightarrow> int \<times> int \<times> error option" where
  "sumOfConditionsLengths conditions = sumOfConditionsLengths_loop 0 0 conditions"

text \<open>
  \<^verbatim>\<open>joinSQL\<close>: the loop carries the buffer and the flag \<open>firstCondition\<close>.
\<close>

fun joinSQL_loop :: "string \<Rightarrow> string \<Rightarrow> bool \<Rightarrow> Condition list \<Rightarrow> string" where
  "joinSQL_loop buffer conjunction firstCondition [] = buffer"
| "joinSQL_loop buffer conjunction firstCondition (c # conditions) =
     (if \<not> firstCondition then
        joinSQL_loop ((buffer @ conjunction) @ sql c) conjunction firstCondition conditions
      else
        joinSQL_loop (buffer @ sql c) conjunction False conditions)"

definition joinSQL :: "string \<Rightarrow> string \<Rightarrow> Condition list \<Rightarrow> string" where
  "joinSQL buffer conjunction conditions = joinSQL_loop buffer conjunction True conditions"

text \<open>\<^verbatim>\<open>joinArgs\<close>: appends the arguments of each condition in turn.\<close>

fun joinArgs :: "goval list \<Rightarrow> Condition list \<Rightarrow> goval list" where
  "joinArgs arguments [] = arguments"
| "joinArgs arguments (c # conditions) = joinArgs (arguments @ args c) conditions"

text \<open>
  \<^verbatim>\<open>And\<close>. The slice \<^verbatim>\<open>make([]interface{}, 0, argsLength)\<close> is the empty list;
  like the buffer, it panics on a negative capacity, which is checked after the
  buffer's.
\<close>

definition And :: "Condition list \<Rightarrow> panic + Condition" where
  "And conditions =
     (if length conditions = 1 then Inr (conditions ! 0)
      else
        (case sumOfConditionsLengths conditions of
           (sqlLength, argsLength, Some e) \<Rightarrow> Inr \<lparr>err = Some e, sql = [], args = []\<rparr>
         | (sqlLength, argsLength, None) \<Rightarrow>
             (case NewBuffer (sqlLength + 5 * (int (length conditions) - 1)) of
                Inl p \<Rightarrow> Inl p
              | Inr buffer \<Rightarrow>
                  (if argsLength < 0 then Inl MakesliceCapOutOfRange
                   else Inr \<lparr>err = None,
                             sql = joinSQL buffer '' AND '' conditions,
                             args = joinArgs [] conditions\<rparr>))))"

text \<open>\<^verbatim>\<open>Or\<close>.\<close>

definition Or :: "Condition list \<Rightarrow> panic + Condition" where
  "Or conditions =
     (if length conditions = 1 then Inr (conditions ! 0)
      else
        (case sumOfConditionsLengths conditions of
           (sqlLength, argsLength, Some e) \<Rightarrow> Inr \<lparr>err = Some e, sql = [], args = []\<rparr>
         | (sqlLength, argsLength, None) \<Rightarrow>
             (case NewBuffer (sqlLength + (2 + 4 * (int (length conditions) - 1))) of
                Inl p \<Rightarrow> Inl p
              | Inr buffer \<Rightarrow>
                  (let buffer1 = buffer @ ''('';
                       buffer2 = joinSQL buffer1 '' OR '' conditions;
                       buffer3 = buffer2 @ '')''
                   in if argsLength < 0 then Inl MakesliceCapOutOfRange
                      else Inr \<lparr>err = None, sql = buffer3,
                                args = joinArgs [] conditions\<rparr>))))"

text \<open>\<^verbatim>\<open>Not\<close> (the name \<open>Not\<close> is HOL's negation).\<close>

definition Not_condition :: "Condition \<Rightarrow> panic + Condition" where
  "Not_condition condition =
     (if err condition \<noteq> None then Inr condition
      else
        (case NewBuffer (6 + int (length (sql condition))) of
           Inl p \<Rightarrow> Inl p
         | Inr buffer \<Rightarrow>
             Inr \<lparr>err = None,
                  sql = ((buffer @ ''NOT ('') @ sql condition) @ '')'',
                  args = args condition\<rparr>))"

section \<open>What the specification says a condition looks like\<close>

text \<open>
  The functions of this section are not translations of the code: they write down
  the specification's description of the results, and the theorems below compare
  the code with them.

  \<open>Join\<close> puts a separator between the elements of a list of strings, as
  \<^verbatim>\<open>strings.Join\<close> does.
\<close>

fun Join :: "string list \<Rightarrow> string \<Rightarrow> string" where
  "Join [] sep = []"
| "Join [x] sep = x"
| "Join (x # y # ys) sep = x @ sep @ Join (y # ys) sep"

text \<open>
  An argument counts once when it is a scalar and by its length when it is a slice;
  the flattened argument list holds a scalar itself and the elements of a slice.
\<close>

fun argumentWidth :: "goval \<Rightarrow> nat" where
  "argumentWidth (VSlice v) = length v"
| "argumentWidth a = 1"

fun flattenArgument :: "goval \<Rightarrow> goval list" where
  "flattenArgument (VSlice v) = v"
| "flattenArgument a = [a]"

text \<open>
  The rewritten fragment: scanning from the left, each placeholder consumes the
  next argument and is replaced by as many placeholders as the argument is wide,
  joined by commas; every other character is kept.
\<close>

fun expandPlaceholders :: "string \<Rightarrow> goval list \<Rightarrow> string" where
  "expandPlaceholders [] arguments = []"
| "expandPlaceholders (c # s) [] = c # s"
| "expandPlaceholders (c # s) (a # arguments) =
     (if c = CHR ''?'' then
        Join (replicate (argumentWidth a) ''?'') '','' @ expandPlaceholders s arguments
      else c # expandPlaceholders s (a # arguments))"

section \<open>Raw SQL execution\<close>






section \<open>The connection object\<close>

text \<open>
  Statement caches are reached through pointers, and \<^verbatim>\<open>Clone\<close> allocates new
  ones, so they live in a store: a list of caches, the address of a cache being
  its index. Allocation appends to the store. A pointer is \<open>None\<close> (nil) or an
  address; reading or writing through nil panics, and so does an address outside
  the store, which no Go program can hold.
\<close>

record StmtCache =
  isEnabled :: bool
  maxSize :: int

type_synonym store = "StmtCache list"

definition load :: "nat option \<Rightarrow> store \<Rightarrow> panic + StmtCache" where
  "load cache h =
     (case cache of
        None \<Rightarrow> Inl NilPointerDereference
      | Some a \<Rightarrow> if a < length h then Inr (h ! a) else Inl NilPointerDereference)"

definition save :: "nat option \<Rightarrow> StmtCache \<Rightarrow> store \<Rightarrow> panic + store" where
  "save cache v h =
     (case cache of
        None \<Rightarrow> Inl NilPointerDereference
      | Some a \<Rightarrow> if a < length h then Inr (h[a := v]) else Inl NilPointerDereference)"

text \<open>Sequencing of steps that may panic.\<close>

definition andThen :: "panic + 'a \<Rightarrow> ('a \<Rightarrow> panic + 'b) \<Rightarrow> panic + 'b" where
  "andThen m f = (case m of Inl p \<Rightarrow> Inl p | Inr x \<Rightarrow> f x)"

text \<open>
  Modelled from the spec: the type \<^verbatim>\<open>StmtCache\<close> and its methods are not part of the
  sources. The specification gives a cache a capacity that can be set and a switch
  that enables or disables it; the default configuration of a connection says that
  a new cache is enabled. The default capacity is a constant of the missing file
  and is a parameter here.
\<close>

definition newStmtCache :: "int \<Rightarrow> store \<Rightarrow> nat option \<times> store" where
  "newStmtCache defaultSize h =
     (Some (length h), h @ [\<lparr>isEnabled = True, maxSize = defaultSize\<rparr>])"

definition GetSize :: "nat option \<Rightarrow> store \<Rightarrow> panic + int" where
  "GetSize cache h = andThen (load cache h) (\<lambda>v. Inr (maxSize v))"

definition IsEnabled :: "nat option \<Rightarrow> store \<Rightarrow> panic + bool" where
  "IsEnabled cache h = andThen (load cache h) (\<lambda>v. Inr (isEnabled v))"

definition SetSize :: "nat option \<Rightarrow> int \<Rightarrow> store \<Rightarrow> panic + store" where
  "SetSize cache newSize h = andThen (load cache h) (\<lambda>v. save cache (v\<lparr>maxSize := newSize\<rparr>) h)"

definition Disable :: "nat option \<Rightarrow> store \<Rightarrow> panic + store" where
  "Disable cache h = andThen (load cache h) (\<lambda>v. save cache (v\<lparr>isEnabled := False\<rparr>) h)"

text \<open>
  The struct \<^verbatim>\<open>DB\<close>. The adapter, the connection, the transaction, the logger
  and the table namer are opaque handles (\<open>None\<close> is nil); the two caches are
  pointers into the store; \<^verbatim>\<open>time.Duration\<close> is a signed 64-bit count of
  nanoseconds.
\<close>

record DB =
  adapter :: nat
  sqlDB :: "nat option"
  sqlTx :: "nat option"
  logger :: "nat option"
  consumedTime :: "64 word"
  defaultTableNamer :: nat
  stmtCacheDB :: "nat option"
  stmtCacheTx :: "nat option"
  useErrorParser :: bool

text \<open>\<^verbatim>\<open>initialize\<close>, with the table namer \<^verbatim>\<open>tablenamer.Same()\<close> as a parameter.\<close>

definition initialize :: "int \<Rightarrow> nat \<Rightarrow> nat \<Rightarrow> nat option \<Rightarrow> store \<Rightarrow> panic + DB \<times> store" where
  "initialize defaultSize same adapter0 dbInst h =
     (case newStmtCache defaultSize h of (cacheDB, h1) \<Rightarrow>
      case newStmtCache defaultSize h1 of (cacheTx, h2) \<Rightarrow>
        (let db = \<lparr>adapter = adapter0, sqlDB = dbInst, sqlTx = None, logger = None,
                   consumedTime = 0, defaultTableNamer = same,
                   stmtCacheDB = cacheDB, stmtCacheTx = cacheTx, useErrorParser = False\<rparr>
         in andThen (Disable (stmtCacheDB db) h2) (\<lambda>h3. Inr (db, h3))))"

text \<open>
  \<^verbatim>\<open>Clone\<close>. The receiver is only read; the result is the clone and the store
  after the call.
\<close>

definition Clone :: "int \<Rightarrow> DB \<Rightarrow> store \<Rightarrow> panic + DB \<times> store" where
  "Clone defaultSize db h =
     (case newStmtCache defaultSize h of (cacheDB, h1) \<Rightarrow>
      case newStmtCache defaultSize h1 of (cacheTx, h2) \<Rightarrow>
        (let clone = \<lparr>adapter = adapter db, sqlDB = sqlDB db, sqlTx = None,
                      logger = logger db, consumedTime = 0,
                      defaultTableNamer = defaultTableNamer db,
                      stmtCacheDB = cacheDB, stmtCacheTx = cacheTx,
                      useErrorParser = useErrorParser db\<rparr>
         in andThen (GetSize (stmtCacheDB db) h2) (\<lambda>sizeDB.
            andThen (SetSize (stmtCacheDB clone) sizeDB h2) (\<lambda>h3.
            andThen (IsEnabled (stmtCacheDB db) h3) (\<lambda>enabledDB.
            andThen (if \<not> enabledDB then Disable (stmtCacheDB clone) h3 else Inr h3) (\<lambda>h4.
            andThen (GetSize (stmtCacheTx db) h4) (\<lambda>sizeTx.
            andThen (SetSize (stmtCacheTx clone) sizeTx h4) (\<lambda>h5.
            andThen (IsEnabled (stmtCacheTx db) h5) (\<lambda>enabledTx.
            andThen (if \<not> enabledTx then Disable (stmtCacheTx clone) h5 else Inr h5) (\<lambda>h6.
            Inr (clone, h6)))))))))))"

text \<open>The consumed time: \<^verbatim>\<open>ConsumedTime\<close>, \<^verbatim>\<open>ResetConsumedTime\<close>, \<^verbatim>\<open>addConsumedTime\<close>.
  The addition is Go's \<^verbatim>\<open>+=\<close> on \<^verbatim>\<open>int64\<close>, which wraps around.\<close>

definition ConsumedTime :: "DB \<Rightarrow> 64 word" where
  "ConsumedTime db = consumedTime db"

definition ResetConsumedTime :: "DB \<Rightarrow> DB" where
  "ResetConsumedTime db = db\<lparr>consumedTime := 0\<rparr>"

definition addConsumedTime :: "DB \<Rightarrow> 64 word \<Rightarrow> DB" where
  "addConsumedTime db duration = db\<lparr>consumedTime := consumedTime db + duration\<rparr>"

text \<open>The pipeline adding the elapsed time of one statement after the other.\<close>

fun addConsumedTimes :: "DB \<Rightarrow> 64 word list \<Rightarrow> DB" where
  "addConsumedTimes db [] = db"
| "addConsumedTimes db (duration # durations) =
     addConsumedTimes (addConsumedTime db duration) durations"

section \<open>Facts about the string functions\<close>

text \<open>
  With the one-character needle \<open>Placeholder\<close>, searching and counting reduce to
  the list functions \<open>takeWhile\<close>, \<open>dropWhile\<close> and \<open>filter\<close>.
\<close>

lemma Index_char: "Index s [q] = (if q \<in> set s then int (length (takeWhile (\<lambda>c. c \<noteq> q) s)) else - 1)"
  by (induction s) (auto simp: HasPrefix_def Let_def)

lemma Count_Nil_char: "Count [] [q] = 0"
  by (subst Count.simps) simp

lemma Count_Cons_char:
  "Count (c # s) [q] = (if c = q then Suc (Count s [q]) else Count s [q])"
  apply (subst Count.simps)
  apply (subst (3) Count.simps)
  apply (auto simp: HasPrefix_def Let_def nat_add_distrib)
  done

lemma Count_char: "Count s [q] = length (filter (\<lambda>c. c = q) s)"
  by (induction s) (simp_all add: Count_Nil_char Count_Cons_char)

lemma Count_Placeholder: "Count s Placeholder = length (filter (\<lambda>c. c = CHR ''?'') s)"
  by (simp add: Placeholder_def Count_char)

lemma Index_Placeholder:
  "Index s Placeholder =
     (if CHR ''?'' \<in> set s then int (length (takeWhile (\<lambda>c. c \<noteq> CHR ''?'') s)) else - 1)"
  by (simp add: Placeholder_def Index_char)

lemma Count_pos_mem: "Count s Placeholder = Suc n \<Longrightarrow> CHR ''?'' \<in> set s"
proof -
  assume "Count s Placeholder = Suc n"
  then have "filter (\<lambda>c. c = CHR ''?'') s \<noteq> []"
    by (auto simp: Count_Placeholder)
  then show ?thesis
    by (auto simp: filter_empty_conv)
qed

lemma take_takeWhile: "take (length (takeWhile P s)) s = takeWhile P s"
  by (induction s) auto

lemma drop_Suc_takeWhile: "drop (Suc (length (takeWhile P s))) s = tl (dropWhile P s)"
  by (induction s) auto

lemma Count_after:
  "CHR ''?'' \<in> set s \<Longrightarrow>
   Suc (Count (tl (dropWhile (\<lambda>c. c \<noteq> CHR ''?'') s)) Placeholder) = Count s Placeholder"
  by (induction s) (auto simp: Count_Placeholder)

lemma length_takeWhile_found:
  "q \<in> set s \<Longrightarrow> length (takeWhile (\<lambda>c. c \<noteq> q) s) < length s"
  by (induction s) auto

lemma Repeat_length_pred:
  "v \<noteq> [] \<Longrightarrow> Repeat s (int (length v) - 1) = Inr (concat (replicate (length v - 1) s))"
  by (cases v) (simp_all add: Repeat_def)

section \<open>The loop of Q\<close>

text \<open>
  One iteration of the loop when the rest of the fragment holds a placeholder: the
  slicing is in range, and the iteration either returns an error or goes on with
  the text after the placeholder.
\<close>

lemma Q_loop_found:
  assumes "CHR ''?'' \<in> set rem"
  shows "Q_loop sql0 buf rem cargs (arg # rest) =
     (if arg = VNil then
        Inr \<lparr>err = Some (Errorf (''using nil as argument in condition '' @ sql0)),
             sql = [], args = cargs\<rparr>
      else
        (case arg of
           VSlice v \<Rightarrow>
             (if v = [] then
                Inr \<lparr>err = Some (Errorf (''empty slice used as argument in condition '' @ sql0)),
                     sql = [], args = cargs\<rparr>
              else Q_loop sql0
                     (buf @ takeWhile (\<lambda>c. c \<noteq> CHR ''?'') rem @ ''?'' @
                        concat (replicate (length v - 1) '',?''))
                     (tl (dropWhile (\<lambda>c. c \<noteq> CHR ''?'') rem)) (cargs @ v) rest)
         | _ \<Rightarrow>
             Q_loop sql0 (buf @ takeWhile (\<lambda>c. c \<noteq> CHR ''?'') rem @ ''?'')
               (tl (dropWhile (\<lambda>c. c \<noteq> CHR ''?'') rem)) (cargs @ [arg]) rest))"
proof -
  let ?n = "length (takeWhile (\<lambda>c. c \<noteq> CHR ''?'') rem)"
  have idx: "Index rem Placeholder = int ?n"
    using assms by (simp add: Index_Placeholder)
  have lt: "?n < length rem"
    using assms by (rule length_takeWhile_found)
  show ?thesis
    using lt
    by (cases arg)
       (simp_all add: Q_loop.simps(2) idx Let_def take_takeWhile drop_Suc_takeWhile nat_add_distrib
          Repeat_length_pred, simp_all add: Placeholder_def)
qed

lemma Q_loop_no_panic:
  "Count rem Placeholder = length arguments \<Longrightarrow>
   \<exists>c. Q_loop sql0 buf rem cargs arguments = Inr c"
proof (induction arguments arbitrary: buf rem cargs)
  case Nil
  show ?case by simp
next
  case (Cons arg rest)
  from Cons.prems have mem: "CHR ''?'' \<in> set rem"
    by (auto intro: Count_pos_mem)
  from Cons.prems have cnt:
    "Count (tl (dropWhile (\<lambda>c. c \<noteq> CHR ''?'') rem)) Placeholder = length rest"
    using Count_after [OF mem] by simp
  show ?case
    by (cases arg) (simp_all add: Q_loop_found [OF mem] Cons.IH [OF cnt])
qed

lemma Join_replicate_Suc:
  "Join (replicate (Suc n) ''?'') '','' = ''?'' @ concat (replicate n '',?'')"
  by (induction n) simp_all

lemma expandPlaceholders_no_arguments: "expandPlaceholders s [] = s"
  by (cases s) simp_all

lemma expandPlaceholders_found:
  "CHR ''?'' \<in> set s \<Longrightarrow>
   expandPlaceholders s (a # arguments) =
     takeWhile (\<lambda>c. c \<noteq> CHR ''?'') s @ Join (replicate (argumentWidth a) ''?'') '','' @
     expandPlaceholders (tl (dropWhile (\<lambda>c. c \<noteq> CHR ''?'') s)) arguments"
  by (induction s) auto

lemma Q_loop_expands:
  "Count rem Placeholder = length arguments \<Longrightarrow>
   \<forall>a \<in> set arguments. a \<noteq> VNil \<and> a \<noteq> VSlice [] \<Longrightarrow>
   Q_loop sql0 buf rem cargs arguments =
     Inr \<lparr>err = None, sql = buf @ expandPlaceholders rem arguments,
          args = cargs @ concat (map flattenArgument arguments)\<rparr>"
proof (induction arguments arbitrary: buf rem cargs)
  case Nil
  show ?case by (simp add: expandPlaceholders_no_arguments)
next
  case (Cons arg rest)
  from Cons.prems(1) have mem: "CHR ''?'' \<in> set rem"
    by (auto intro: Count_pos_mem)
  from Cons.prems(1) have cnt:
    "Count (tl (dropWhile (\<lambda>c. c \<noteq> CHR ''?'') rem)) Placeholder = length rest"
    using Count_after [OF mem] by simp
  from Cons.prems(2) have rest: "\<forall>a \<in> set rest. a \<noteq> VNil \<and> a \<noteq> VSlice []"
    by simp
  note IH = Cons.IH [OF cnt rest]
  show ?case
  proof (cases arg)
    case (VSlice v)
    with Cons.prems(2) have "v \<noteq> []" by auto
    then obtain n where n: "length v = Suc n" by (cases v) auto
    show ?thesis
      using \<open>v \<noteq> []\<close> n
      by (simp add: VSlice Q_loop_found [OF mem] IH expandPlaceholders_found [OF mem]
            Join_replicate_Suc del: replicate.simps Join.simps)
  qed (use Cons.prems(2) in \<open>simp_all add: Q_loop_found [OF mem] IH expandPlaceholders_found [OF mem]\<close>)
qed

lemma Q_loop_poisoned:
  "Count rem Placeholder = length arguments \<Longrightarrow>
   VNil \<in> set arguments \<or> VSlice [] \<in> set arguments \<Longrightarrow>
   \<exists>c. Q_loop sql0 buf rem cargs arguments = Inr c \<and> err c \<noteq> None"
proof (induction arguments arbitrary: buf rem cargs)
  case Nil
  then show ?case by simp
next
  case (Cons arg rest)
  from Cons.prems(1) have mem: "CHR ''?'' \<in> set rem"
    by (auto intro: Count_pos_mem)
  from Cons.prems(1) have cnt:
    "Count (tl (dropWhile (\<lambda>c. c \<noteq> CHR ''?'') rem)) Placeholder = length rest"
    using Count_after [OF mem] by simp
  note IH = Cons.IH [OF cnt]
  show ?case
  proof (cases "arg = VNil \<or> arg = VSlice []")
    case True
    then show ?thesis
      by (auto simp: Q_loop_found [OF mem])
  next
    case False
    with Cons.prems(2) have "VNil \<in> set rest \<or> VSlice [] \<in> set rest"
      by auto
    from IH [OF this] False show ?thesis
      by (cases arg) (simp_all add: Q_loop_found [OF mem])
  qed
qed



section \<open>The combinators\<close>

lemma sumOfConditionsLengths_loop_clean:
  "\<forall>c \<in> set conditions. err c = None \<Longrightarrow>
   sumOfConditionsLengths_loop sqlLength argsLength conditions =
     (sqlLength + int (length (concat (map sql conditions))),
      argsLength + int (length (concat (map args conditions))), None)"
  by (induction conditions arbitrary: sqlLength argsLength) simp_all

lemma sumOfConditionsLengths_loop_first_error:
  "\<forall>c \<in> set pre. err c = None \<Longrightarrow> err p \<noteq> None \<Longrightarrow>
   sumOfConditionsLengths_loop sqlLength argsLength (pre @ p # post) = (0, 0, err p)"
  by (induction pre arbitrary: sqlLength argsLength) simp_all

lemma joinSQL_loop_rest:
  "joinSQL_loop buffer conjunction False conditions =
     buffer @ concat (map (\<lambda>c. conjunction @ sql c) conditions)"
  by (induction conditions arbitrary: buffer) simp_all

lemma Join_Cons:
  "Join (x # xs) sep = x @ concat (map (\<lambda>y. sep @ y) xs)"
  by (induction xs arbitrary: x) simp_all

lemma joinSQL_Join:
  "conditions \<noteq> [] \<Longrightarrow>
   joinSQL buffer conjunction conditions = buffer @ Join (map sql conditions) conjunction"
  by (cases conditions) (simp_all add: joinSQL_def joinSQL_loop_rest Join_Cons comp_def)

lemma joinArgs_concat: "joinArgs arguments conditions = arguments @ concat (map args conditions)"
  by (induction conditions arbitrary: arguments) simp_all

text \<open>
  Without any condition the computed capacity of the buffer is negative, and both
  functions panic.
\<close>

lemma And_Or_no_conditions:
  "And [] = Inl MakesliceCapOutOfRange \<and> Or [] = Inl MakesliceCapOutOfRange"
  by (simp add: And_def Or_def sumOfConditionsLengths_def NewBuffer_def)

lemma And_first_error:
  assumes "length conditions \<noteq> 1" "conditions = pre @ p # post"
    "\<forall>c \<in> set pre. err c = None" "err p \<noteq> None"
  shows "And conditions = Inr \<lparr>err = err p, sql = [], args = []\<rparr>"
  using assms
  by (auto simp: And_def sumOfConditionsLengths_def sumOfConditionsLengths_loop_first_error)

lemma Or_first_error:
  assumes "length conditions \<noteq> 1" "conditions = pre @ p # post"
    "\<forall>c \<in> set pre. err c = None" "err p \<noteq> None"
  shows "Or conditions = Inr \<lparr>err = err p, sql = [], args = []\<rparr>"
  using assms
  by (auto simp: Or_def sumOfConditionsLengths_def sumOfConditionsLengths_loop_first_error)

lemma And_clean:
  assumes "2 \<le> length conditions" "\<forall>c \<in> set conditions. err c = None"
  shows "And conditions =
     Inr \<lparr>err = None, sql = Join (map sql conditions) '' AND '',
          args = concat (map args conditions)\<rparr>"
proof -
  from assms(1) have ne: "conditions \<noteq> []" and n1: "length conditions \<noteq> 1"
    by auto
  have cap: "\<not> int (length (concat (map sql conditions))) + 5 * (int (length conditions) - 1) < 0"
    using assms(1) by simp
  show ?thesis
    using n1 cap
    by (simp add: And_def sumOfConditionsLengths_def
        sumOfConditionsLengths_loop_clean [OF assms(2)] NewBuffer_def
        joinSQL_Join [OF ne] joinArgs_concat)
qed

lemma Or_clean:
  assumes "2 \<le> length conditions" "\<forall>c \<in> set conditions. err c = None"
  shows "Or conditions =
     Inr \<lparr>err = None, sql = ''('' @ Join (map sql conditions) '' OR '' @ '')'',
          args = concat (map args conditions)\<rparr>"
proof -
  from assms(1) have ne: "conditions \<noteq> []" and n1: "length conditions \<noteq> 1"
    by auto
  have cap: "\<not> int (length (concat (map sql conditions))) + (2 + 4 * (int (length conditions) - 1)) < 0"
    using assms(1) by simp
  show ?thesis
    using n1 cap
    by (simp add: Or_def sumOfConditionsLengths_def
        sumOfConditionsLengths_loop_clean [OF assms(2)] NewBuffer_def Let_def
        joinSQL_Join [OF ne] joinArgs_concat)
qed


section \<open>The store of statement caches\<close>

lemma load_Some: "a < length h \<Longrightarrow> load (Some a) h = Inr (h ! a)"
  by (simp add: load_def)

lemma save_Some: "a < length h \<Longrightarrow> save (Some a) v h = Inr (h[a := v])"
  by (simp add: save_def)

lemma andThen_Inr: "andThen (Inr x) f = f x"
  by (simp add: andThen_def)

lemma GetSize_Some: "a < length h \<Longrightarrow> GetSize (Some a) h = Inr (maxSize (h ! a))"
  by (simp add: GetSize_def load_Some andThen_Inr)

lemma IsEnabled_Some: "a < length h \<Longrightarrow> IsEnabled (Some a) h = Inr (isEnabled (h ! a))"
  by (simp add: IsEnabled_def load_Some andThen_Inr)

lemma SetSize_Some:
  "a < length h \<Longrightarrow> SetSize (Some a) n h = Inr (h[a := (h ! a)\<lparr>maxSize := n\<rparr>])"
  by (simp add: SetSize_def load_Some save_Some andThen_Inr)

lemma Disable_Some:
  "a < length h \<Longrightarrow> Disable (Some a) h = Inr (h[a := (h ! a)\<lparr>isEnabled := False\<rparr>])"
  by (simp add: Disable_def load_Some save_Some andThen_Inr)

lemma Clone_result:
  assumes "stmtCacheDB db = Some a" "a < length h" "stmtCacheTx db = Some b" "b < length h"
  shows "Clone defaultSize db h =
     Inr (\<lparr>adapter = adapter db, sqlDB = sqlDB db, sqlTx = None,
            logger = logger db, consumedTime = 0,
            defaultTableNamer = defaultTableNamer db,
            stmtCacheDB = Some (length h), stmtCacheTx = Some (Suc (length h)),
            useErrorParser = useErrorParser db\<rparr>,
          h @ [\<lparr>isEnabled = isEnabled (h ! a), maxSize = maxSize (h ! a)\<rparr>,
               \<lparr>isEnabled = isEnabled (h ! b), maxSize = maxSize (h ! b)\<rparr>])"
  using assms
  by (simp add: Clone_def newStmtCache_def Let_def GetSize_Some SetSize_Some IsEnabled_Some
      Disable_Some andThen_Inr nth_append list_update_append)


text \<open>\<^verbatim>\<open>initialize\<close> returns a connection whose two caches are allocated.\<close>

lemma initialize_allocates:
  "\<exists>db h'. initialize defaultSize same adapter0 dbInst h = Inr (db, h') \<and>
     stmtCacheDB db = Some (length h) \<and> stmtCacheTx db = Some (Suc (length h)) \<and>
     length h' = length h + 2 \<and> sqlTx db = None \<and> consumedTime db = 0"
  by (simp add: initialize_def newStmtCache_def Disable_Some andThen_Inr)

section \<open>Signed 64-bit addition\<close>

lemma sint_add_no_overflow:
  fixes c d :: "64 word"
  assumes "0 \<le> sint d" "sint c + sint d < 2 ^ 63"
  shows "sint (c + d) = sint c + sint d"
proof -
  have "- (2 ^ 63) \<le> sint c"
    using sint_ge [of c] by simp
  with assms show ?thesis
    by (simp add: sint_word_ariths signed_take_bit_int_eq_self)
qed


lemma addConsumedTimes_sint:
  "\<forall>d \<in> set durations. 0 \<le> sint d \<Longrightarrow>
   sint (consumedTime db) + sum_list (map sint durations) < 2 ^ 63 \<Longrightarrow>
   sint (consumedTime (addConsumedTimes db durations)) =
     sint (consumedTime db) + sum_list (map sint durations)"
proof (induction durations arbitrary: db)
  case Nil
  show ?case by simp
next
  case (Cons d durations)
  have nonneg: "0 \<le> sum_list (map sint durations)"
    using Cons.prems(1) by (intro sum_list_nonneg) auto
  have step: "sint (consumedTime db + d) = sint (consumedTime db) + sint d"
    using Cons.prems nonneg by (intro sint_add_no_overflow) auto
  have "sint (consumedTime (addConsumedTimes (addConsumedTime db d) durations)) =
      sint (consumedTime (addConsumedTime db d)) + sum_list (map sint durations)"
    using Cons.prems step by (intro Cons.IH) (auto simp: addConsumedTime_def)
  then show ?case
    by (simp add: addConsumedTime_def step)
qed

section \<open>The claims\<close>

subsection \<open>Q\<close>

text \<open>
  Claim C1. When the fragment holds exactly as many placeholders as there are
  arguments, and no argument is nil or an empty slice, \<open>Q\<close> returns a condition
  that is not poisoned. Its argument list is the flattened list of the inputs, so
  its length is the sum of 1 for each scalar and of the length of each slice, and
  its fragment is the input fragment with each placeholder replaced by as many
  placeholders, joined by commas, as its argument is wide. In particular
  \<^verbatim>\<open>Q("x = ? AND y IN (?)", 5, []int{1,2,3})\<close> has the fragment
  \<^verbatim>\<open>x = ? AND y IN (?,?,?)\<close> and the arguments \<^verbatim>\<open>[5,1,2,3]\<close>.
\<close>

theorem Q_expands_slices:
  "(Count sql0 Placeholder = length arguments \<and>
    (\<forall>a \<in> set arguments. a \<noteq> VNil \<and> a \<noteq> VSlice []) \<longrightarrow>
      (\<exists>c. Q sql0 arguments = Inr c \<and> Err c = None \<and>
           length (args c) = sum_list (map argumentWidth arguments) \<and>
           args c = concat (map flattenArgument arguments) \<and>
           sql c = expandPlaceholders sql0 arguments)) \<and>
   Q ''x = ? AND y IN (?)'' [VInt 5, VSlice [VInt 1, VInt 2, VInt 3]] =
     Inr \<lparr>err = None, sql = ''x = ? AND y IN (?,?,?)'',
          args = [VInt 5, VInt 1, VInt 2, VInt 3]\<rparr>"
proof -
  have width: "length (concat (map flattenArgument as)) = sum_list (map argumentWidth as)" for as
  proof (induction as)
    case Nil
    show ?case by simp
  next
    case (Cons a as)
    then show ?case by (cases a) simp_all
  qed
  have general: "Q s as =
      Inr \<lparr>err = None, sql = expandPlaceholders s as, args = concat (map flattenArgument as)\<rparr>"
    if "Count s Placeholder = length as" "\<forall>a \<in> set as. a \<noteq> VNil \<and> a \<noteq> VSlice []" for s as
    using that by (simp add: Q_def NewBuffer_def Q_loop_expands)
  have "\<exists>c. Q sql0 arguments = Inr c \<and> Err c = None \<and>
           length (args c) = sum_list (map argumentWidth arguments) \<and>
           args c = concat (map flattenArgument arguments) \<and>
           sql c = expandPlaceholders sql0 arguments"
    if "Count sql0 Placeholder = length arguments"
       "\<forall>a \<in> set arguments. a \<noteq> VNil \<and> a \<noteq> VSlice []"
    using general [OF that] by (simp add: Err_def width)
  moreover have "Q ''x = ? AND y IN (?)'' [VInt 5, VSlice [VInt 1, VInt 2, VInt 3]] =
     Inr \<lparr>err = None, sql = ''x = ? AND y IN (?,?,?)'',
          args = [VInt 5, VInt 1, VInt 2, VInt 3]\<rparr>"
    by (subst general) (simp_all add: Count_Placeholder)
  ultimately show ?thesis
    by blast
qed

theorem Q_expands_slices_witness:
  "Count ''a IN (?) OR b = ?'' Placeholder = length [VSlice [VInt 1, VInt 2], VString ''z''] \<and>
   VNil \<notin> set [VSlice [VInt 1, VInt 2], VString ''z''] \<and>
   VSlice [] \<notin> set [VSlice [VInt 1, VInt 2], VString ''z''] \<and>
   (\<exists>c. Q ''a IN (?) OR b = ?'' [VSlice [VInt 1, VInt 2], VString ''z''] = Inr c \<and>
        Err c = None \<and> length (args c) = 3 \<and>
        args c = [VInt 1, VInt 2, VString ''z''] \<and> sql c = ''a IN (?,?) OR b = ?'')"
  using Q_expands_slices [of "''a IN (?) OR b = ?''" "[VSlice [VInt 1, VInt 2], VString ''z'']"]
  by (auto simp add: Count_Placeholder)

text \<open>
  Claim C2. A count of placeholders different from the number of arguments, a nil
  argument or an empty slice makes \<open>Q\<close> return, as a value and without a panic,
  a condition whose \<open>Err\<close> is set; so do \<^verbatim>\<open>Q("a=?", nil)\<close> and
  \<^verbatim>\<open>Q("a=?", []int{})\<close>.
\<close>

theorem Q_poisons_bad_input:
  "(Count sql0 Placeholder \<noteq> length arguments \<or> VNil \<in> set arguments \<or>
    VSlice [] \<in> set arguments \<longrightarrow>
      (\<exists>c. Q sql0 arguments = Inr c \<and> Err c \<noteq> None)) \<and>
   (\<exists>c. Q ''a=?'' [VNil] = Inr c \<and> Err c \<noteq> None) \<and>
   (\<exists>c. Q ''a=?'' [VSlice []] = Inr c \<and> Err c \<noteq> None)"
proof -
  have general: "\<exists>c. Q s as = Inr c \<and> Err c \<noteq> None"
    if "Count s Placeholder \<noteq> length as \<or> VNil \<in> set as \<or> VSlice [] \<in> set as" for s as
  proof (cases "Count s Placeholder = length as")
    case False
    then show ?thesis
      by (simp add: Q_def Err_def)
  next
    case True
    with that have "VNil \<in> set as \<or> VSlice [] \<in> set as"
      by simp
    from Q_loop_poisoned [OF True this, of s "[]" "[]"] True show ?thesis
      by (simp add: Q_def NewBuffer_def Err_def)
  qed
  have "\<exists>c. Q ''a=?'' [VNil] = Inr c \<and> Err c \<noteq> None"
    by (rule general) simp
  moreover have "\<exists>c. Q ''a=?'' [VSlice []] = Inr c \<and> Err c \<noteq> None"
    by (rule general) simp
  ultimately show ?thesis
    using general [of sql0 arguments] by blast
qed

theorem Q_poisons_bad_input_witness:
  "Count ''a=? AND b=?'' Placeholder \<noteq> length [VInt 1] \<and>
   Q ''a=? AND b=?'' [VInt 1] =
     Inr \<lparr>err = Some (Errorf ''wrong number of arguments in condition a=? AND b=?''),
          sql = [], args = []\<rparr>"
  using Q_poisons_bad_input [of "''a=? AND b=?''" "[VInt 1]"]
  by (simp add: Count_Placeholder Q_def)

text \<open>
  Claim C10. When the rest of the fragment holds as many placeholders as there are
  arguments left, the search of the next iteration finds a placeholder, the two
  slicings at and after its position are in range, and the same relation holds
  again for the text after it and the remaining arguments; so the loop, and \<open>Q\<close>
  itself, return a condition and never the out-of-range panic.
\<close>

theorem Q_search_always_succeeds:
  assumes "Count remainingSQL Placeholder = length arguments"
  shows "(arguments \<noteq> [] \<longrightarrow>
            0 \<le> Index remainingSQL Placeholder \<and>
            Index remainingSQL Placeholder + 1 \<le> int (length remainingSQL) \<and>
            Count (drop (nat (Index remainingSQL Placeholder + 1)) remainingSQL) Placeholder =
              length (tl arguments)) \<and>
         (\<exists>c. Q_loop sql0 buffer remainingSQL cargs arguments = Inr c) \<and>
         (\<exists>c. Q remainingSQL arguments = Inr c)"
proof (intro conjI impI)
  assume ne: "arguments \<noteq> []"
  with assms obtain n where "Count remainingSQL Placeholder = Suc n"
    by (cases arguments) auto
  then have mem: "CHR ''?'' \<in> set remainingSQL"
    by (rule Count_pos_mem)
  then show "0 \<le> Index remainingSQL Placeholder"
    by (simp add: Index_Placeholder)
  from length_takeWhile_found [OF mem]
  show "Index remainingSQL Placeholder + 1 \<le> int (length remainingSQL)"
    using mem by (simp add: Index_Placeholder)
  from Count_after [OF mem] assms ne
  show "Count (drop (nat (Index remainingSQL Placeholder + 1)) remainingSQL) Placeholder =
      length (tl arguments)"
    using mem by (simp add: Index_Placeholder nat_add_distrib drop_Suc_takeWhile)
next
  show "\<exists>c. Q_loop sql0 buffer remainingSQL cargs arguments = Inr c"
    using assms by (rule Q_loop_no_panic)
  show "\<exists>c. Q remainingSQL arguments = Inr c"
    using assms Q_loop_no_panic [OF assms, of remainingSQL "[]" "[]"]
    by (simp add: Q_def NewBuffer_def)
qed

theorem Q_search_always_succeeds_witness:
  "Count ''a=? AND b=?'' Placeholder = length [VInt 1, VInt 2] \<and>
   Index ''a=? AND b=?'' Placeholder = 2 \<and>
   Count (drop 3 ''a=? AND b=?'') Placeholder = 1 \<and>
   (\<exists>c. Q_loop ''a=? AND b=?'' [] ''a=? AND b=?'' [] [VInt 1, VInt 2] = Inr c) \<and>
   (\<exists>c. Q ''a=? AND b=?'' [VInt 1, VInt 2] = Inr c)"
  using Q_search_always_succeeds [of "''a=? AND b=?''" "[VInt 1, VInt 2]" "''a=? AND b=?''" "[]" "[]"]
  by (simp add: Count_Placeholder Index_Placeholder)

subsection \<open>And, Or, Not\<close>

text \<open>
  Claim C3. When \<open>And\<close> or \<open>Or\<close> is given two or more conditions and \<open>p\<close> is the
  first poisoned one in argument order, the result carries the error of \<open>p\<close> and
  neither a fragment nor arguments. \<open>Not\<close> returns a poisoned condition as it is.
\<close>

theorem poisoned_input_propagates:
  "(2 \<le> length conditions \<and> conditions = pre @ p # post \<and>
      (\<forall>c \<in> set pre. Err c = None) \<and> Err p \<noteq> None \<longrightarrow>
        (\<exists>r. And conditions = Inr r \<and> Err r = Err p \<and> sql r = [] \<and> args r = []) \<and>
        (\<exists>r. Or conditions = Inr r \<and> Err r = Err p \<and> sql r = [] \<and> args r = [])) \<and>
   (Err condition \<noteq> None \<longrightarrow> Not_condition condition = Inr condition)"
proof (intro conjI impI)
  assume h: "2 \<le> length conditions \<and> conditions = pre @ p # post \<and>
      (\<forall>c \<in> set pre. Err c = None) \<and> Err p \<noteq> None"
  then have "2 \<le> length conditions" by (rule conjunct1)
  then have ne: "length conditions \<noteq> 1" by arith
  from h have "And conditions = Inr \<lparr>err = err p, sql = [], args = []\<rparr>"
    by (intro And_first_error [OF ne, of pre p post]) (simp_all add: Err_def)
  then show "\<exists>r. And conditions = Inr r \<and> Err r = Err p \<and> sql r = [] \<and> args r = []"
    by (simp add: Err_def)
  from h have "Or conditions = Inr \<lparr>err = err p, sql = [], args = []\<rparr>"
    by (intro Or_first_error [OF ne, of pre p post]) (simp_all add: Err_def)
  then show "\<exists>r. Or conditions = Inr r \<and> Err r = Err p \<and> sql r = [] \<and> args r = []"
    by (simp add: Err_def)
next
  assume "Err condition \<noteq> None"
  then show "Not_condition condition = Inr condition"
    by (simp add: Not_condition_def Err_def)
qed

theorem poisoned_input_propagates_witness:
  "And [\<lparr>err = None, sql = ''a=?'', args = [VInt 1]\<rparr>,
        \<lparr>err = Some (Errorf ''first''), sql = [], args = [VInt 7]\<rparr>,
        \<lparr>err = Some (Errorf ''second''), sql = [], args = []\<rparr>] =
     Inr \<lparr>err = Some (Errorf ''first''), sql = [], args = []\<rparr> \<and>
   Or [\<lparr>err = None, sql = ''a=?'', args = [VInt 1]\<rparr>,
       \<lparr>err = Some (Errorf ''first''), sql = [], args = [VInt 7]\<rparr>,
       \<lparr>err = Some (Errorf ''second''), sql = [], args = []\<rparr>] =
     Inr \<lparr>err = Some (Errorf ''first''), sql = [], args = []\<rparr> \<and>
   Not_condition \<lparr>err = Some (Errorf ''first''), sql = [], args = [VInt 7]\<rparr> =
     Inr \<lparr>err = Some (Errorf ''first''), sql = [], args = [VInt 7]\<rparr>"
  using poisoned_input_propagates
    [of "[\<lparr>err = None, sql = ''a=?'', args = [VInt 1]\<rparr>,
          \<lparr>err = Some (Errorf ''first''), sql = [], args = [VInt 7]\<rparr>,
          \<lparr>err = Some (Errorf ''second''), sql = [], args = []\<rparr>]"
        "[\<lparr>err = None, sql = ''a=?'', args = [VInt 1]\<rparr>]"
        "\<lparr>err = Some (Errorf ''first''), sql = [], args = [VInt 7]\<rparr>"
        "[\<lparr>err = Some (Errorf ''second''), sql = [], args = []\<rparr>]"
        "\<lparr>err = Some (Errorf ''first''), sql = [], args = [VInt 7]\<rparr>"]
  by (auto simp add: Err_def)

text \<open>
  Claim C4. For two or more conditions none of which is poisoned, the fragment of
  \<open>And\<close> is the fragments in argument order with \<^verbatim>\<open> AND \<close> between them and no
  parentheses, the fragment of \<open>Or\<close> is the fragments with \<^verbatim>\<open> OR \<close> between them,
  the whole in parentheses, and the arguments of both are the arguments of the
  inputs, concatenated in the same order.
\<close>

theorem And_Or_join_fragments:
  "2 \<le> length conditions \<and> (\<forall>c \<in> set conditions. Err c = None) \<longrightarrow>
     And conditions =
       Inr \<lparr>err = None, sql = Join (map sql conditions) '' AND '',
            args = concat (map args conditions)\<rparr> \<and>
     Or conditions =
       Inr \<lparr>err = None, sql = ''('' @ Join (map sql conditions) '' OR '' @ '')'',
            args = concat (map args conditions)\<rparr>"
  by (simp add: And_clean Or_clean Err_def)

theorem And_Or_join_fragments_witness:
  "And [\<lparr>err = None, sql = ''a=?'', args = [VInt 1]\<rparr>,
        \<lparr>err = None, sql = ''b=?'', args = [VInt 2]\<rparr>] =
     Inr \<lparr>err = None, sql = ''a=? AND b=?'', args = [VInt 1, VInt 2]\<rparr> \<and>
   Or [\<lparr>err = None, sql = ''a=?'', args = [VInt 1]\<rparr>,
       \<lparr>err = None, sql = ''b=?'', args = [VInt 2]\<rparr>] =
     Inr \<lparr>err = None, sql = ''(a=? OR b=?)'', args = [VInt 1, VInt 2]\<rparr>"
  using And_Or_join_fragments
    [of "[\<lparr>err = None, sql = ''a=?'', args = [VInt 1]\<rparr>,
          \<lparr>err = None, sql = ''b=?'', args = [VInt 2]\<rparr>]"]
  by (simp add: Err_def)

text \<open>
  Claim C5. \<open>And\<close> and \<open>Or\<close> of exactly one condition return that condition:
  same fragment, same arguments, same error.
\<close>

theorem And_Or_identity: "And [c] = Inr c \<and> Or [c] = Inr c"
  by (simp add: And_def Or_def)

text \<open>
  Claim C6. \<open>Not\<close> of a condition that is not poisoned is not poisoned, has the
  fragment \<^verbatim>\<open>NOT (\<close> \<open>f\<close> \<^verbatim>\<open>)\<close> and the same arguments.
\<close>

theorem Not_wraps:
  "Err c = None \<Longrightarrow>
   Not_condition c = Inr \<lparr>err = None, sql = ''NOT ('' @ sql c @ '')'', args = args c\<rparr>"
  by (simp add: Not_condition_def Err_def NewBuffer_def)

theorem Not_wraps_witness:
  "Err \<lparr>err = None, sql = ''a=?'', args = [VInt 1]\<rparr> = None \<and>
   Not_condition \<lparr>err = None, sql = ''a=?'', args = [VInt 1]\<rparr> =
     Inr \<lparr>err = None, sql = ''NOT (a=?)'', args = [VInt 1]\<rparr>"
  using Not_wraps [of "\<lparr>err = None, sql = ''a=?'', args = [VInt 1]\<rparr>"]
  by (simp add: Err_def)

subsection \<open>Raw SQL\<close>



subsection \<open>The connection object\<close>

text \<open>
  Claim C8, as stated for every \<^verbatim>\<open>DB\<close> value, fails on the zero value
  \<^verbatim>\<open>godb.DB{}\<close>, whose two cache pointers are nil: \<open>Clone\<close> allocates the new
  caches and then panics when it reads the size of the receiver's cache.
\<close>

theorem Clone_nil_caches_counterexample:
  "Clone 64 \<lparr>adapter = 0, sqlDB = None, sqlTx = None, logger = None,
             consumedTime = 0, defaultTableNamer = 0,
             stmtCacheDB = None, stmtCacheTx = None, useErrorParser = False\<rparr> [] =
     Inl NilPointerDereference"
  by (simp add: Clone_def newStmtCache_def GetSize_def load_def andThen_def)

text \<open>
  Claim C8, amended. \<open>Clone\<close> of a connection whose two caches are allocated, as they are
  after \<open>initialize\<close> and after \<open>Clone\<close>, returns a connection with the same
  \<open>sqlDB\<close>, no transaction and a consumed time of zero; its two caches are newly
  allocated, different from each other and from the caches of the original; the
  store of the original is unchanged below the new addresses.
\<close>

theorem Clone_fresh_caches:
  assumes "stmtCacheDB db = Some a" "a < length h" "stmtCacheTx db = Some b" "b < length h"
  shows "\<exists>clone h'. Clone defaultSize db h = Inr (clone, h') \<and>
           sqlDB clone = sqlDB db \<and> sqlTx clone = None \<and> ConsumedTime clone = 0 \<and>
           stmtCacheDB clone = Some (length h) \<and> stmtCacheTx clone = Some (Suc (length h)) \<and>
           stmtCacheDB clone \<noteq> stmtCacheTx clone \<and>
           stmtCacheDB clone \<notin> {stmtCacheDB db, stmtCacheTx db} \<and>
           stmtCacheTx clone \<notin> {stmtCacheDB db, stmtCacheTx db} \<and>
           length h' = length h + 2 \<and> take (length h) h' = h"
  using assms by (simp add: Clone_result [OF assms] ConsumedTime_def)

theorem Clone_fresh_caches_witness:
  "\<exists>clone h'.
     Clone 64 \<lparr>adapter = 1, sqlDB = Some 2, sqlTx = Some 3, logger = None,
               consumedTime = 5, defaultTableNamer = 0,
               stmtCacheDB = Some 0, stmtCacheTx = Some 1, useErrorParser = True\<rparr>
       [\<lparr>isEnabled = False, maxSize = 10\<rparr>, \<lparr>isEnabled = True, maxSize = 20\<rparr>] =
       Inr (clone, h') \<and>
     sqlDB clone = Some 2 \<and> sqlTx clone = None \<and> ConsumedTime clone = 0 \<and>
     stmtCacheDB clone = Some 2 \<and> stmtCacheTx clone = Some 3 \<and>
     length h' = 4 \<and>
     take 2 h' = [\<lparr>isEnabled = False, maxSize = 10\<rparr>, \<lparr>isEnabled = True, maxSize = 20\<rparr>]"
  using Clone_fresh_caches
    [of "\<lparr>adapter = 1, sqlDB = Some 2, sqlTx = Some 3, logger = None,
          consumedTime = 5, defaultTableNamer = 0,
          stmtCacheDB = Some 0, stmtCacheTx = Some 1, useErrorParser = True\<rparr>"
        0 "[\<lparr>isEnabled = False, maxSize = 10\<rparr>, \<lparr>isEnabled = True, maxSize = 20\<rparr>]" 1 64]
  by (auto simp add: numeral_2_eq_2)

text \<open>
  Claim C9, as stated, fails when the 64-bit sum wraps around: after elapsed times
  of \<open>2^63 - 1\<close> and then \<open>1\<close> nanoseconds, both non-negative, the consumed time
  has gone down.
\<close>

theorem consumed_time_wraps_counterexample:
  "0 \<le> sint (9223372036854775807 :: 64 word) \<and> 0 \<le> sint (1 :: 64 word) \<and>
   sint (ConsumedTime (addConsumedTimes
          \<lparr>adapter = 0, sqlDB = None, sqlTx = None, logger = None,
           consumedTime = 0, defaultTableNamer = 0,
           stmtCacheDB = Some 0, stmtCacheTx = Some 1, useErrorParser = False\<rparr>
          [9223372036854775807, 1]))
   < sint (ConsumedTime (addConsumedTimes
          \<lparr>adapter = 0, sqlDB = None, sqlTx = None, logger = None,
           consumedTime = 0, defaultTableNamer = 0,
           stmtCacheDB = Some 0, stmtCacheTx = Some 1, useErrorParser = False\<rparr>
          [9223372036854775807]))"
  by (simp add: ConsumedTime_def addConsumedTime_def)

text \<open>
  Claim C9, amended. As long as the sum of the consumed time and of the
  non-negative elapsed times added to it stays below \<open>2^63\<close>, the consumed time
  after a part of the additions is at most the consumed time after all of them,
  it is the exact sum, and a positive consumed time does not become zero by
  additions. \<open>ResetConsumedTime\<close> sets it to zero.
\<close>

theorem consumed_time_monotone:
  "((\<forall>d \<in> set (earlier @ later). 0 \<le> sint d) \<and>
    sint (ConsumedTime db) + sum_list (map sint (earlier @ later)) < 2 ^ 63 \<longrightarrow>
      sint (ConsumedTime (addConsumedTimes db earlier))
        \<le> sint (ConsumedTime (addConsumedTimes db (earlier @ later))) \<and>
      sint (ConsumedTime (addConsumedTimes db (earlier @ later))) =
        sint (ConsumedTime db) + sum_list (map sint (earlier @ later)) \<and>
      (0 < sint (ConsumedTime db) \<longrightarrow> ConsumedTime (addConsumedTimes db (earlier @ later)) \<noteq> 0)) \<and>
   ConsumedTime (ResetConsumedTime db) = 0"
proof (intro conjI impI)
  assume h: "(\<forall>d \<in> set (earlier @ later). 0 \<le> sint d) \<and>
    sint (ConsumedTime db) + sum_list (map sint (earlier @ later)) < 2 ^ 63"
  have e: "0 \<le> sum_list (map sint earlier)" and l: "0 \<le> sum_list (map sint later)"
    using h by (auto intro!: sum_list_nonneg)
  have whole: "sint (consumedTime (addConsumedTimes db (earlier @ later))) =
      sint (consumedTime db) + sum_list (map sint (earlier @ later))"
    using h by (intro addConsumedTimes_sint) (auto simp: ConsumedTime_def)
  have part: "sint (consumedTime (addConsumedTimes db earlier)) =
      sint (consumedTime db) + sum_list (map sint earlier)"
    using h l by (intro addConsumedTimes_sint) (auto simp: ConsumedTime_def)
  show "sint (ConsumedTime (addConsumedTimes db earlier))
        \<le> sint (ConsumedTime (addConsumedTimes db (earlier @ later)))"
    using whole part l by (simp add: ConsumedTime_def)
  show "sint (ConsumedTime (addConsumedTimes db (earlier @ later))) =
        sint (ConsumedTime db) + sum_list (map sint (earlier @ later))"
    using whole by (simp add: ConsumedTime_def)
  assume "0 < sint (ConsumedTime db)"
  with whole e l have "0 < sint (consumedTime (addConsumedTimes db (earlier @ later)))"
    by (simp add: ConsumedTime_def)
  then show "ConsumedTime (addConsumedTimes db (earlier @ later)) \<noteq> 0"
    by (auto simp: ConsumedTime_def)
next
  show "ConsumedTime (ResetConsumedTime db) = 0"
    by (simp add: ConsumedTime_def ResetConsumedTime_def)
qed

theorem consumed_time_monotone_witness:
  "sint (ConsumedTime (addConsumedTimes
          \<lparr>adapter = 0, sqlDB = None, sqlTx = None, logger = None,
           consumedTime = 7, defaultTableNamer = 0,
           stmtCacheDB = Some 0, stmtCacheTx = Some 1, useErrorParser = False\<rparr> [3]))
     \<le> sint (ConsumedTime (addConsumedTimes
          \<lparr>adapter = 0, sqlDB = None, sqlTx = None, logger = None,
           consumedTime = 7, defaultTableNamer = 0,
           stmtCacheDB = Some 0, stmtCacheTx = Some 1, useErrorParser = False\<rparr> [3, 0, 5])) \<and>
   sint (ConsumedTime (addConsumedTimes
          \<lparr>adapter = 0, sqlDB = None, sqlTx = None, logger = None,
           consumedTime = 7, defaultTableNamer = 0,
           stmtCacheDB = Some 0, stmtCacheTx = Some 1, useErrorParser = False\<rparr> [3, 0, 5])) = 15"
  using consumed_time_monotone
    [of "[3]" "[0, 5]"
        "\<lparr>adapter = 0, sqlDB = None, sqlTx = None, logger = None,
          consumedTime = 7, defaultTableNamer = 0,
          stmtCacheDB = Some 0, stmtCacheTx = Some 1, useErrorParser = False\<rparr>"]
  by (simp add: ConsumedTime_def)

end
